theory Spec2Isabelle
  imports Main
begin

section \<open>The stub generator \<^verbatim>\<open>scripts/generate_contract_param_methods.py\<close>\<close>

text \<open>
  The script has no input. It fills four module-level lists with rendered method stubs,
  one stub per list and bit width, and then writes the lists to \<^verbatim>\<open>output.txt\<close>.
  The model follows it statement by statement: the four lists are a record that is
  passed along, the file system is a map from paths to contents, and an I/O operation
  that raises \<^verbatim>\<open>OSError\<close> returns \<open>Inl OSError\<close>.
\<close>

subsection \<open>Python primitives\<close>

text \<open>\<^verbatim>\<open>str(n)\<close> on an integer: the decimal digits, with a minus sign when negative.\<close>

definition digits :: string where
  "digits = ''0123456789''"

fun str_nat :: "nat \<Rightarrow> string" where
  "str_nat n = (if n < 10 then [digits ! n] else str_nat (n div 10) @ [digits ! (n mod 10)])"

declare str_nat.simps [simp del]

definition str :: "int \<Rightarrow> string" where
  "str i = (if i < 0 then CHR ''-'' # str_nat (nat (- i)) else str_nat (nat i))"

text \<open>
  \<^verbatim>\<open>range(start, stop, step)\<close> as the list of its values. Python raises
  \<^verbatim>\<open>ValueError\<close> for a zero step; the script calls it with step 8 only.
\<close>

function py_range :: "int \<Rightarrow> int \<Rightarrow> int \<Rightarrow> int list" where
  "py_range start stop step =
     (if 0 < step \<and> start < stop then start # py_range (start + step) stop step
      else if step < 0 \<and> stop < start then start # py_range (start + step) stop step
      else [])"
  by pat_completeness auto
termination
  by (relation "measure (\<lambda>(start, stop, step).
        if 0 < step then nat (stop - start) else nat (start - stop))") auto

declare py_range.simps [simp del]

subsection \<open>The four accumulating lists\<close>

record gen_state =
  int_versions :: "string list"
  uint_versions :: "string list"
  int_array_versions :: "string list"
  uint_array_versions :: "string list"

text \<open>Lines 3 to 7 of the script: all four lists start empty.\<close>

definition init_state :: gen_state where
  "init_state = \<lparr>int_versions = [], uint_versions = [],
                  int_array_versions = [], uint_array_versions = []\<rparr>"

subsection \<open>Rendering\<close>

text \<open>
  The four string expressions of \<^verbatim>\<open>add_methods_for_bit_width\<close>, each the argument
  of one \<^verbatim>\<open>append\<close>, literal by literal. \<open>w\<close> is \<^verbatim>\<open>solidity_bit_width\<close>;
  \<^verbatim>\<open>//\<close> is floor division, which is \<open>div\<close> on \<open>int\<close>.
\<close>

definition int_version_text :: "int \<Rightarrow> string \<Rightarrow> string" where
  \<open>int_version_text w rust_signed_type =
     ''/// Add an `int'' @ str w @ ''` argument to the `ContractFunctionParameters`\<newline>''
     @ ''#[allow(dead_code)]\<newline>''
     @ ''pub fn add_int'' @ str w @ ''(&mut self, val: '' @ rust_signed_type @ '') -> &mut Self {\<newline>''
     @ ''    self.add_int(&val, "int'' @ str w @ ''", '' @ str (w div 8) @ '')\<newline>''
     @ ''}\<newline>''\<close>

definition uint_version_text :: "int \<Rightarrow> string \<Rightarrow> string" where
  \<open>uint_version_text w rust_unsigned_type =
     ''/// Add a `uint'' @ str w @ ''` argument to the `ContractFunctionParameters`\<newline>''
     @ ''#[allow(dead_code)]\<newline>''
     @ ''pub fn add_uint'' @ str w @ ''(&mut self, val: '' @ rust_unsigned_type @ '') -> &mut Self {\<newline>''
     @ ''    self.add_int(&val, "uint'' @ str w @ ''", '' @ str (w div 8) @ '')\<newline>''
     @ ''}\<newline>''\<close>

definition int_array_version_text :: "int \<Rightarrow> string \<Rightarrow> string" where
  \<open>int_array_version_text w rust_signed_type =
     ''/// Add an `int'' @ str w @ ''[]` argument to the `ContractFunctionParameters`\<newline>''
     @ ''#[allow(dead_code)]\<newline>''
     @ ''pub fn add_int'' @ str w @ ''_array(&mut self, values: &['' @ rust_signed_type @ '']) -> &mut Self {\<newline>''
     @ ''    self.add_int_array(values, "int'' @ str w @ ''[]", '' @ str (w div 8) @ '')\<newline>''
     @ ''}\<newline>''\<close>

definition uint_array_version_text :: "int \<Rightarrow> string \<Rightarrow> string" where
  \<open>uint_array_version_text w rust_unsigned_type =
     ''/// Add a `uint'' @ str w @ ''[]` argument to the `ContractFunctionParameters`\<newline>''
     @ ''#[allow(dead_code)]\<newline>''
     @ ''pub fn add_uint'' @ str w @ ''_array(&mut self, values: &['' @ rust_unsigned_type @ '']) -> &mut Self {\<newline>''
     @ ''    self.add_int_array(values, "uint'' @ str w @ ''[]", '' @ str (w div 8) @ '')\<newline>''
     @ ''}\<newline>''\<close>

text \<open>
  \<^verbatim>\<open>add_methods_for_bit_width\<close> appends to the lists in the order signed scalar,
  unsigned scalar, signed array, unsigned array.
\<close>

definition add_methods_for_bit_width :: "int \<Rightarrow> string \<Rightarrow> string \<Rightarrow> gen_state \<Rightarrow> gen_state" where
  "add_methods_for_bit_width solidity_bit_width rust_signed_type rust_unsigned_type st =
     st\<lparr>int_versions := int_versions st @ [int_version_text solidity_bit_width rust_signed_type],
        uint_versions := uint_versions st @ [uint_version_text solidity_bit_width rust_unsigned_type],
        int_array_versions :=
          int_array_versions st @ [int_array_version_text solidity_bit_width rust_signed_type],
        uint_array_versions :=
          uint_array_versions st @ [uint_array_version_text solidity_bit_width rust_unsigned_type]\<rparr>"

subsection \<open>The generation loop\<close>

text \<open>The body of \<^verbatim>\<open>for bit_width in range(8, 257, 8)\<close>, with its chain of tests in order.\<close>

definition loop_body :: "int \<Rightarrow> gen_state \<Rightarrow> gen_state" where
  "loop_body bit_width st =
     (if bit_width \<le> 8 then add_methods_for_bit_width bit_width ''i8'' ''u8'' st
      else if bit_width \<le> 16 then add_methods_for_bit_width bit_width ''i16'' ''u16'' st
      else if bit_width \<le> 32 then add_methods_for_bit_width bit_width ''i32'' ''u32'' st
      else if bit_width \<le> 64 then add_methods_for_bit_width bit_width ''i64'' ''u64'' st
      else if bit_width \<le> 128 then add_methods_for_bit_width bit_width ''i128'' ''u128'' st
      else add_methods_for_bit_width bit_width ''BigInt'' ''BigUint'' st)"

definition bit_widths :: "int list" where
  "bit_widths = py_range 8 257 8"

text \<open>The lists once the loop has run.\<close>

definition generated :: gen_state where
  "generated = fold loop_body bit_widths init_state"

subsection \<open>Writing the file\<close>

text \<open>
  The world the script runs in: the files, and the outcome of every I/O operation it
  will attempt, numbered in the order they happen (\<open>io_ok w k\<close> is False when
  operation \<open>k\<close> raises \<^verbatim>\<open>OSError\<close>). A file object is identified with its path.
  Text mode is taken on a POSIX system, where \<^verbatim>\<open>\n\<close> is written as it is.
\<close>

datatype error = OSError

record world =
  files :: "string \<rightharpoonup> string"
  io_ok :: "nat \<Rightarrow> bool"
  io_count :: nat

definition io_op :: "(world \<Rightarrow> world) \<Rightarrow> world \<Rightarrow> error + world" where
  "io_op effect w =
     (if io_ok w (io_count w) then Inr (effect (w\<lparr>io_count := Suc (io_count w)\<rparr>))
      else Inl OSError)"

text \<open>\<^verbatim>\<open>open(path, "w")\<close> creates the file or truncates it.\<close>

definition py_open_w :: "string \<Rightarrow> world \<Rightarrow> error + world" where
  "py_open_w path = io_op (\<lambda>w. w\<lparr>files := (files w)(path \<mapsto> [])\<rparr>)"

text \<open>\<^verbatim>\<open>f.write(s)\<close> adds \<open>s\<close> at the end of the file.\<close>

definition py_write :: "string \<Rightarrow> string \<Rightarrow> world \<Rightarrow> error + world" where
  "py_write f s =
     io_op (\<lambda>w. w\<lparr>files := (files w)(f \<mapsto> (case files w f of None \<Rightarrow> s | Some old \<Rightarrow> old @ s))\<rparr>)"

text \<open>\<^verbatim>\<open>f.close()\<close> flushes what is buffered; the flush can fail as a write can.\<close>

definition py_close :: "string \<Rightarrow> world \<Rightarrow> error + world" where
  "py_close f = io_op (\<lambda>w. w)"

text \<open>\<^verbatim>\<open>for v in vs: f.write(v + "\n")\<close>; an exception leaves the loop.\<close>

fun write_each :: "string \<Rightarrow> string list \<Rightarrow> world \<Rightarrow> error + world" where
  "write_each f [] w = Inr w"
| "write_each f (v # vs) w =
     (case py_write f (v @ ''\<newline>'') w of
        Inl e \<Rightarrow> Inl e
      | Inr w' \<Rightarrow> write_each f vs w')"

text \<open>
  The module body from the generation loop to \<^verbatim>\<open>f.close()\<close>. Nothing catches an
  exception, so the first \<open>Inl\<close> is the result.
\<close>

definition script :: "world \<Rightarrow> error + world" where
  "script w =
     (let st = generated in
      case py_open_w ''output.txt'' w of Inl e \<Rightarrow> Inl e | Inr w1 \<Rightarrow>
      case write_each ''output.txt'' (int_versions st) w1 of Inl e \<Rightarrow> Inl e | Inr w2 \<Rightarrow>
      case write_each ''output.txt'' (int_array_versions st) w2 of Inl e \<Rightarrow> Inl e | Inr w3 \<Rightarrow>
      case write_each ''output.txt'' (uint_versions st) w3 of Inl e \<Rightarrow> Inl e | Inr w4 \<Rightarrow>
      case write_each ''output.txt'' (uint_array_versions st) w4 of Inl e \<Rightarrow> Inl e | Inr w5 \<Rightarrow>
      py_close ''output.txt'' w5)"

text \<open>
  How the interpreter ends: an exception that reaches the top level is printed as a
  traceback and the exit status is 1; a module body that runs to its end gives status 0.
\<close>

record outcome =
  status :: nat
  traceback :: "error option"

definition interpreter_exit :: "error + world \<Rightarrow> outcome" where
  "interpreter_exit r =
     (case r of Inl e \<Rightarrow> \<lparr>status = 1, traceback = Some e\<rparr>
              | Inr w \<Rightarrow> \<lparr>status = 0, traceback = None\<rparr>)"

section \<open>Reading the output back\<close>

text \<open>
  The claims speak of records, names, documented types and byte counts, so the written
  text is read back: into lines, into blocks of lines that end at an empty line, and each
  block into the parts of a method stub. None of this is code of the script.
\<close>

text \<open>
  \<open>pieces s [] xs\<close> cuts \<open>xs\<close> after every \<open>s\<close> and drops the \<open>s\<close>; what follows
  the last \<open>s\<close>, when not empty, is a last piece.
\<close>

fun pieces :: "'a \<Rightarrow> 'a list \<Rightarrow> 'a list \<Rightarrow> 'a list list" where
  "pieces s acc [] = (if acc = [] then [] else [acc])"
| "pieces s acc (x # xs) = (if x = s then acc # pieces s [] xs else pieces s (acc @ [x]) xs)"

definition lines_of :: "string \<Rightarrow> string list" where
  "lines_of text = pieces CHR ''\<newline>'' [] text"

definition blocks_of :: "string list \<Rightarrow> string list list" where
  "blocks_of ls = pieces [] [] ls"

definition records_of :: "string \<Rightarrow> string list list" where
  "records_of text = blocks_of (lines_of text)"

text \<open>The parts of a stub, as text.\<close>

record stub =
  doc_type :: string
  fn_name :: string
  param_type :: string
  callee :: string
  type_arg :: string
  byte_arg :: string

text \<open>\<open>between a b s\<close>: what stands after the first \<open>a\<close> of \<open>s\<close>, up to the next \<open>b\<close>.\<close>

definition between :: "char \<Rightarrow> char \<Rightarrow> string \<Rightarrow> string" where
  "between a b s = takeWhile (\<lambda>c. c \<noteq> b) (tl (dropWhile (\<lambda>c. c \<noteq> a) s))"

text \<open>
  A block is a stub when it has five lines: a doc comment, the dead-code marker, a
  declaration \<^verbatim>\<open>pub fn name(... : type) ... {\<close>, a body \<^verbatim>\<open>callee(..., "type", bytes)\<close>
  and the closing brace.
\<close>

definition parse_stub :: "string list \<Rightarrow> stub option" where
  \<open>parse_stub block =
     (case block of
        [doc, allow, decl, body, close] \<Rightarrow>
          if take 4 doc = ''/// '' \<and> allow = ''#[allow(dead_code)]''
             \<and> take 7 decl = ''pub fn '' \<and> decl \<noteq> [] \<and> last decl = CHR ''{''
             \<and> body \<noteq> [] \<and> last body = CHR '')'' \<and> close = ''}''
          then Some \<lparr>doc_type = between CHR ''`'' CHR ''`'' doc,
                     fn_name = takeWhile (\<lambda>c. c \<noteq> CHR ''('') (drop 7 decl),
                     param_type = takeWhile (\<lambda>c. c \<noteq> CHR '')'') (drop 2 (dropWhile (\<lambda>c. c \<noteq> CHR '':'') decl)),
                     callee = takeWhile (\<lambda>c. c \<noteq> CHR ''('') (dropWhile (\<lambda>c. c = CHR '' '') body),
                     type_arg = between CHR ''"'' CHR ''"'' body,
                     byte_arg = rev (takeWhile (\<lambda>c. c \<noteq> CHR '' '') (tl (rev body)))\<rparr>
          else None
      | _ \<Rightarrow> None)\<close>

text \<open>A decimal numeral read as a number.\<close>

definition digit_value :: "char \<Rightarrow> int" where
  "digit_value c = int (length (takeWhile (\<lambda>d. d \<noteq> c) digits))"

definition parse_decimal :: "string \<Rightarrow> int option" where
  "parse_decimal s =
     (if s \<noteq> [] \<and> set s \<subseteq> set digits
      then Some (foldl (\<lambda>a c. 10 * a + digit_value c) 0 s) else None)"

text \<open>A Solidity type name \<^verbatim>\<open>intN\<close>, \<^verbatim>\<open>uintN\<close>, \<^verbatim>\<open>intN[]\<close> or \<^verbatim>\<open>uintN[]\<close> read as category and width.\<close>

datatype category = SignedScalar | SignedArray | UnsignedScalar | UnsignedArray

definition strip_prefix :: "string \<Rightarrow> string \<Rightarrow> string option" where
  "strip_prefix p s = (if take (length p) s = p then Some (drop (length p) s) else None)"

definition parse_solidity_type :: "string \<Rightarrow> (category \<times> int) option" where
  "parse_solidity_type s =
     (case (case strip_prefix ''uint'' s of
              Some r \<Rightarrow> Some (False, r)
            | None \<Rightarrow> map_option (Pair True) (strip_prefix ''int'' s)) of
        None \<Rightarrow> None
      | Some (signed, r) \<Rightarrow>
          (let ds = takeWhile (\<lambda>c. c \<in> set digits) r;
               rest = dropWhile (\<lambda>c. c \<in> set digits) r
           in if rest = [] then
                map_option (Pair (if signed then SignedScalar else UnsignedScalar)) (parse_decimal ds)
              else if rest = ''[]'' then
                map_option (Pair (if signed then SignedArray else UnsignedArray)) (parse_decimal ds)
              else None))"

text \<open>
  The underlying-type resolution in the words of the specification: the pair of signed
  and unsigned type names chosen by range membership of the width.
\<close>

definition underlying_types :: "int \<Rightarrow> string \<times> string" where
  "underlying_types width =
     (if width \<le> 8 then (''i8'', ''u8'')
      else if width \<le> 16 then (''i16'', ''u16'')
      else if width \<le> 32 then (''i32'', ''u32'')
      else if width \<le> 64 then (''i64'', ''u64'')
      else if width \<le> 128 then (''i128'', ''u128'')
      else (''BigInt'', ''BigUint''))"

text \<open>
  What the four write loops hand to \<^verbatim>\<open>f.write\<close>, in writing order and without the
  newline each loop adds, and the text the file holds after them.
\<close>

definition written :: "string list" where
  "written = int_versions generated @ int_array_versions generated
             @ uint_versions generated @ uint_array_versions generated"

definition output_text :: string where
  "output_text = concat (map (\<lambda>v. v @ ''\<newline>'') written)"

text \<open>
  The order of the write loops as categories, the stub text of a category and width as
  the loop body renders it, and the parts the specification gives such a stub: the
  documented Solidity type, the name \<^verbatim>\<open>add_<int|uint><width>[_array]\<close>, a parameter of
  the resolved underlying type, the shared primitive, the type name literal and the byte
  width.
\<close>

definition write_order :: "category list" where
  "write_order = [SignedScalar, SignedArray, UnsignedScalar, UnsignedArray]"

definition version_text :: "category \<Rightarrow> int \<Rightarrow> string" where
  "version_text c w =
     (case c of
        SignedScalar \<Rightarrow> int_version_text w (fst (underlying_types w))
      | SignedArray \<Rightarrow> int_array_version_text w (fst (underlying_types w))
      | UnsignedScalar \<Rightarrow> uint_version_text w (snd (underlying_types w))
      | UnsignedArray \<Rightarrow> uint_array_version_text w (snd (underlying_types w)))"

definition expected_stub :: "category \<Rightarrow> int \<Rightarrow> stub" where
  "expected_stub c w =
     (case c of
        SignedScalar \<Rightarrow>
          \<lparr>doc_type = ''int'' @ str w, fn_name = ''add_int'' @ str w,
           param_type = fst (underlying_types w), callee = ''self.add_int'',
           type_arg = ''int'' @ str w, byte_arg = str (w div 8)\<rparr>
      | SignedArray \<Rightarrow>
          \<lparr>doc_type = ''int'' @ str w @ ''[]'', fn_name = ''add_int'' @ str w @ ''_array'',
           param_type = ''&['' @ fst (underlying_types w) @ '']'', callee = ''self.add_int_array'',
           type_arg = ''int'' @ str w @ ''[]'', byte_arg = str (w div 8)\<rparr>
      | UnsignedScalar \<Rightarrow>
          \<lparr>doc_type = ''uint'' @ str w, fn_name = ''add_uint'' @ str w,
           param_type = snd (underlying_types w), callee = ''self.add_int'',
           type_arg = ''uint'' @ str w, byte_arg = str (w div 8)\<rparr>
      | UnsignedArray \<Rightarrow>
          \<lparr>doc_type = ''uint'' @ str w @ ''[]'', fn_name = ''add_uint'' @ str w @ ''_array'',
           param_type = ''&['' @ snd (underlying_types w) @ '']'', callee = ''self.add_int_array'',
           type_arg = ''uint'' @ str w @ ''[]'', byte_arg = str (w div 8)\<rparr>)"

text \<open>Category and width of a block, read from the type its doc line names.\<close>

definition record_kind :: "string list \<Rightarrow> (category \<times> int) option" where
  "record_kind block =
     (case parse_stub block of None \<Rightarrow> None | Some s \<Rightarrow> parse_solidity_type (doc_type s))"

text \<open>
  Three worlds to run the script in: one with no files where every operation succeeds,
  one where \<^verbatim>\<open>output.txt\<close> and another file already exist, and one where the first
  operation, the \<^verbatim>\<open>open\<close>, raises.
\<close>

definition clean_world :: world where
  "clean_world = \<lparr>files = Map.empty, io_ok = (\<lambda>k. True), io_count = 0\<rparr>"

definition stale_world :: world where
  "stale_world = \<lparr>files = [''output.txt'' \<mapsto> ''left over from an earlier run'', ''notes.txt'' \<mapsto> ''keep''],
                   io_ok = (\<lambda>k. True), io_count = 5\<rparr>"

definition locked_world :: world where
  "locked_world = \<lparr>files = Map.empty, io_ok = (\<lambda>k. k \<noteq> 0), io_count = 0\<rparr>"

section \<open>Auxiliary facts\<close>

subsection \<open>Decimal rendering\<close>

lemma length_digits: "length digits = 10"
  by (simp add: digits_def)

lemma digits_nth_in: "d < 10 \<Longrightarrow> digits ! d \<in> set digits"
  by (rule nth_mem) (simp only: length_digits)

lemma set_str_nat: "set (str_nat n) \<subseteq> set digits"
proof (induction n rule: str_nat.induct)
  case (1 n)
  show ?case
  proof (cases "n < 10")
    case True
    then show ?thesis by (subst str_nat.simps) (simp add: digits_nth_in)
  next
    case False
    then have "set (str_nat (n div 10)) \<subseteq> set digits" using 1 by simp
    moreover have "digits ! (n mod 10) \<in> set digits" by (simp add: digits_nth_in)
    ultimately show ?thesis using False by (subst str_nat.simps) simp
  qed
qed

lemma str_nat_nonempty: "str_nat n \<noteq> []"
  by (subst str_nat.simps) simp

lemma str_nonneg: "0 \<le> i \<Longrightarrow> str i = str_nat (nat i)"
  by (simp add: str_def)

lemma set_str: "set (str i) \<subseteq> insert CHR ''-'' (set digits)"
  using set_str_nat by (auto simp: str_def)

lemma str_nonempty: "str i \<noteq> []"
  by (simp add: str_def str_nat_nonempty)

lemma str_not_mem: "c \<notin> insert CHR ''-'' (set digits) \<Longrightarrow> c \<notin> set (str i)"
  using set_str by blast

lemma digit_value_nth: "d < 10 \<Longrightarrow> digit_value (digits ! d) = int d"
proof -
  assume "d < 10"
  then have "d \<in> {0, 1, 2, 3, 4, 5, 6, 7, 8, 9}" by auto
  then show ?thesis
    by (auto simp: digit_value_def digits_def)
qed

lemma foldl_str_nat:
  "foldl (\<lambda>a c. 10 * a + digit_value c) 0 (str_nat n) = int n"
proof (induction n rule: str_nat.induct)
  case (1 n)
  show ?case
  proof (cases "n < 10")
    case True
    then show ?thesis by (subst str_nat.simps) (simp add: digit_value_nth)
  next
    case False
    then have "foldl (\<lambda>a c. 10 * a + digit_value c) 0 (str_nat (n div 10)) = int (n div 10)"
      using 1 by simp
    moreover have "10 * int (n div 10) + int (n mod 10) = int n"
      by presburger
    ultimately show ?thesis using False
      by (subst str_nat.simps) (simp add: digit_value_nth)
  qed
qed

lemma parse_decimal_str: "0 \<le> i \<Longrightarrow> parse_decimal (str i) = Some i"
  by (simp add: parse_decimal_def str_nonneg str_nat_nonempty set_str_nat foldl_str_nat)

lemma str_inject: "0 \<le> i \<Longrightarrow> 0 \<le> j \<Longrightarrow> str i = str j \<Longrightarrow> i = j"
  by (metis parse_decimal_str option.inject)

lemma takeWhile_skip: "c \<notin> set xs \<Longrightarrow> takeWhile (\<lambda>x. x \<noteq> c) (xs @ ys) = xs @ takeWhile (\<lambda>x. x \<noteq> c) ys"
  by (induction xs) auto

lemma dropWhile_skip: "c \<notin> set xs \<Longrightarrow> dropWhile (\<lambda>x. x \<noteq> c) (xs @ ys) = dropWhile (\<lambda>x. x \<noteq> c) ys"
  by (induction xs) auto

lemma pieces_skip: "s \<notin> set xs \<Longrightarrow> pieces s acc (xs @ ys) = pieces s (acc @ xs) ys"
  by (induction xs arbitrary: acc) auto

subsection \<open>Lines and parts of a rendered stub\<close>

lemma nl_notin_str [simp]: "CHR ''\<newline>'' \<notin> set (str i)"
  by (rule str_not_mem) (simp add: digits_def)

lemma lines_of_int_version_text:
  assumes "CHR ''\<newline>'' \<notin> set t"
  shows \<open>lines_of (int_version_text w t) =
    [''/// Add an `int'' @ str w @ ''` argument to the `ContractFunctionParameters`'',
     ''#[allow(dead_code)]'',
     ''pub fn add_int'' @ str w @ ''(&mut self, val: '' @ t @ '') -> &mut Self {'',
     ''    self.add_int(&val, "int'' @ str w @ ''", '' @ str (w div 8) @ '')'',
     ''}'']\<close>
  using assms by (simp add: lines_of_def int_version_text_def pieces_skip)

lemma special_notin_str [simp]:
  "CHR ''('' \<notin> set (str i)" "CHR '')'' \<notin> set (str i)" "CHR ''`'' \<notin> set (str i)"
  "CHR 0x22 \<notin> set (str i)" "CHR '' '' \<notin> set (str i)" "CHR '':'' \<notin> set (str i)"
  "CHR ''['' \<notin> set (str i)" "CHR ''_'' \<notin> set (str i)"
  by (rule str_not_mem, simp add: digits_def)+

lemma parse_int_version_text:
  assumes "CHR ''\<newline>'' \<notin> set t" "CHR '')'' \<notin> set t"
  shows "parse_stub (lines_of (int_version_text w t)) =
    Some \<lparr>doc_type = ''int'' @ str w, fn_name = ''add_int'' @ str w, param_type = t,
          callee = ''self.add_int'', type_arg = ''int'' @ str w, byte_arg = str (w div 8)\<rparr>"
  using assms
  by (simp add: lines_of_int_version_text parse_stub_def between_def takeWhile_skip dropWhile_skip)

lemma lines_of_uint_version_text:
  assumes "CHR ''\<newline>'' \<notin> set t"
  shows \<open>lines_of (uint_version_text w t) =
    [''/// Add a `uint'' @ str w @ ''` argument to the `ContractFunctionParameters`'',
     ''#[allow(dead_code)]'',
     ''pub fn add_uint'' @ str w @ ''(&mut self, val: '' @ t @ '') -> &mut Self {'',
     ''    self.add_int(&val, "uint'' @ str w @ ''", '' @ str (w div 8) @ '')'',
     ''}'']\<close>
  using assms by (simp add: lines_of_def uint_version_text_def pieces_skip)

lemma lines_of_int_array_version_text:
  assumes "CHR ''\<newline>'' \<notin> set t"
  shows \<open>lines_of (int_array_version_text w t) =
    [''/// Add an `int'' @ str w @ ''[]` argument to the `ContractFunctionParameters`'',
     ''#[allow(dead_code)]'',
     ''pub fn add_int'' @ str w @ ''_array(&mut self, values: &['' @ t @ '']) -> &mut Self {'',
     ''    self.add_int_array(values, "int'' @ str w @ ''[]", '' @ str (w div 8) @ '')'',
     ''}'']\<close>
  using assms by (simp add: lines_of_def int_array_version_text_def pieces_skip)

lemma lines_of_uint_array_version_text:
  assumes "CHR ''\<newline>'' \<notin> set t"
  shows \<open>lines_of (uint_array_version_text w t) =
    [''/// Add a `uint'' @ str w @ ''[]` argument to the `ContractFunctionParameters`'',
     ''#[allow(dead_code)]'',
     ''pub fn add_uint'' @ str w @ ''_array(&mut self, values: &['' @ t @ '']) -> &mut Self {'',
     ''    self.add_int_array(values, "uint'' @ str w @ ''[]", '' @ str (w div 8) @ '')'',
     ''}'']\<close>
  using assms by (simp add: lines_of_def uint_array_version_text_def pieces_skip)

lemma parse_uint_version_text:
  assumes "CHR ''\<newline>'' \<notin> set t" "CHR '')'' \<notin> set t"
  shows "parse_stub (lines_of (uint_version_text w t)) =
    Some \<lparr>doc_type = ''uint'' @ str w, fn_name = ''add_uint'' @ str w, param_type = t,
          callee = ''self.add_int'', type_arg = ''uint'' @ str w, byte_arg = str (w div 8)\<rparr>"
  using assms
  by (simp add: lines_of_uint_version_text parse_stub_def between_def takeWhile_skip dropWhile_skip)

lemma parse_int_array_version_text:
  assumes "CHR ''\<newline>'' \<notin> set t" "CHR '')'' \<notin> set t"
  shows "parse_stub (lines_of (int_array_version_text w t)) =
    Some \<lparr>doc_type = ''int'' @ str w @ ''[]'', fn_name = ''add_int'' @ str w @ ''_array'',
          param_type = ''&['' @ t @ '']'', callee = ''self.add_int_array'',
          type_arg = ''int'' @ str w @ ''[]'', byte_arg = str (w div 8)\<rparr>"
  using assms
  by (simp add: lines_of_int_array_version_text parse_stub_def between_def takeWhile_skip dropWhile_skip)

lemma parse_uint_array_version_text:
  assumes "CHR ''\<newline>'' \<notin> set t" "CHR '')'' \<notin> set t"
  shows "parse_stub (lines_of (uint_array_version_text w t)) =
    Some \<lparr>doc_type = ''uint'' @ str w @ ''[]'', fn_name = ''add_uint'' @ str w @ ''_array'',
          param_type = ''&['' @ t @ '']'', callee = ''self.add_int_array'',
          type_arg = ''uint'' @ str w @ ''[]'', byte_arg = str (w div 8)\<rparr>"
  using assms
  by (simp add: lines_of_uint_array_version_text parse_stub_def between_def takeWhile_skip dropWhile_skip)

lemma takeWhile_digits_str:
  assumes "0 \<le> i" "ys = [] \<or> hd ys \<notin> set digits"
  shows "takeWhile (\<lambda>c. c \<in> set digits) (str i @ ys) = str i"
    and "dropWhile (\<lambda>c. c \<in> set digits) (str i @ ys) = ys"
proof -
  have all: "\<forall>c\<in>set (str i). c \<in> set digits"
    using assms(1) set_str_nat by (auto simp: str_nonneg)
  have tw: "takeWhile (\<lambda>c. c \<in> set digits) ys = []"
    using assms(2) by (cases ys) auto
  have dw: "dropWhile (\<lambda>c. c \<in> set digits) ys = ys"
    using assms(2) by (cases ys) auto
  show "takeWhile (\<lambda>c. c \<in> set digits) (str i @ ys) = str i"
    using all tw by (simp add: takeWhile_append2)
  show "dropWhile (\<lambda>c. c \<in> set digits) (str i @ ys) = ys"
    using all dw by (simp add: dropWhile_append2)
qed

lemma digits_str: "0 \<le> i \<Longrightarrow> c \<in> set (str i) \<Longrightarrow> c \<in> set digits"
  using set_str_nat by (auto simp: str_nonneg)

lemma bracket_not_digit: "CHR ''['' \<notin> set digits"
  by (simp add: digits_def)

lemma parse_solidity_type_int:
  assumes "0 \<le> i"
  shows "parse_solidity_type (''int'' @ str i) = Some (SignedScalar, i)"
    and "parse_solidity_type (''int'' @ str i @ ''[]'') = Some (SignedArray, i)"
    and "parse_solidity_type (''uint'' @ str i) = Some (UnsignedScalar, i)"
    and "parse_solidity_type (''uint'' @ str i @ ''[]'') = Some (UnsignedArray, i)"
proof -
  have a: "takeWhile (\<lambda>c. c \<in> set digits) (str i) = str i"
          "dropWhile (\<lambda>c. c \<in> set digits) (str i) = []"
    by (simp_all add: digits_str [OF assms])
  have b: "takeWhile (\<lambda>c. c \<in> set digits) (str i @ ''[]'') = str i"
          "dropWhile (\<lambda>c. c \<in> set digits) (str i @ ''[]'') = ''[]''"
    using takeWhile_digits_str [OF assms, of "''[]''"] by (simp_all add: digits_def)
  note defs = parse_solidity_type_def strip_prefix_def Let_def parse_decimal_str [OF assms]
    digits_str [OF assms] bracket_not_digit
  show "parse_solidity_type (''int'' @ str i) = Some (SignedScalar, i)"
    by (simp add: a defs)
  show "parse_solidity_type (''int'' @ str i @ ''[]'') = Some (SignedArray, i)"
    by (simp add: b defs)
  show "parse_solidity_type (''uint'' @ str i) = Some (UnsignedScalar, i)"
    by (simp add: a defs)
  show "parse_solidity_type (''uint'' @ str i @ ''[]'') = Some (UnsignedArray, i)"
    by (simp add: b defs)
qed

subsection \<open>Cutting a text into pieces\<close>

lemma pieces_terminated:
  "s \<notin> set p \<Longrightarrow> pieces s acc (p @ s # rest) = (acc @ p) # pieces s [] rest"
  by (simp add: pieces_skip)

lemma pieces_join:
  "\<forall>p\<in>set ps. s \<notin> set p \<Longrightarrow> pieces s [] (concat (map (\<lambda>p. p @ [s]) ps) @ rest) = ps @ pieces s [] rest"
  by (induction ps) (simp_all add: pieces_terminated)

lemma pieces_mem_acc:
  "s \<notin> set acc \<Longrightarrow> \<forall>p\<in>set (pieces s acc xs). s \<notin> set p"
proof (induction xs arbitrary: acc)
  case Nil
  then show ?case by simp
next
  case (Cons x xs)
  show ?case
  proof (cases "x = s")
    case True
    have "\<forall>p\<in>set (pieces s [] xs). s \<notin> set p"
      by (rule Cons.IH) simp
    with True Cons.prems show ?thesis by simp
  next
    case False
    with Cons.prems have "s \<notin> set (acc @ [x])" by simp
    then have "\<forall>p\<in>set (pieces s (acc @ [x]) xs). s \<notin> set p"
      by (rule Cons.IH)
    with False show ?thesis by simp
  qed
qed

lemma pieces_concat:
  "xs \<noteq> [] \<Longrightarrow> last xs = s \<Longrightarrow> concat (map (\<lambda>p. p @ [s]) (pieces s acc xs)) = acc @ xs"
proof (induction xs arbitrary: acc)
  case Nil
  then show ?case by simp
next
  case (Cons x xs)
  show ?case
  proof (cases "xs = []")
    case True
    then show ?thesis using Cons.prems by simp
  next
    case False
    then have "last xs = s" using Cons.prems by simp
    then show ?thesis using Cons.IH False by simp
  qed
qed

lemma lines_of_no_newline: "l \<in> set (lines_of t) \<Longrightarrow> CHR ''\<newline>'' \<notin> set l"
  unfolding lines_of_def using pieces_mem_acc [of "CHR ''\<newline>''" "[]" t] by simp

lemma unlines_lines_of:
  "t \<noteq> [] \<Longrightarrow> last t = CHR ''\<newline>'' \<Longrightarrow>
     concat (map (\<lambda>l. l @ ''\<newline>'') (lines_of t)) = t"
  unfolding lines_of_def using pieces_concat [of t "CHR ''\<newline>''" "[]"] by simp

lemma records_of_written:
  assumes "\<forall>v\<in>set vs. v \<noteq> [] \<and> last v = CHR ''\<newline>'' \<and> [] \<notin> set (lines_of v)"
  shows "records_of (concat (map (\<lambda>v. v @ ''\<newline>'') vs)) = map lines_of vs"
proof -
  define ls where "ls = concat (map (\<lambda>b. b @ [[]]) (map lines_of vs))"
  have flat: "concat (map (\<lambda>v. v @ ''\<newline>'') vs) = concat (map (\<lambda>l. l @ ''\<newline>'') ls)"
    unfolding ls_def using assms by (induction vs) (simp_all add: unlines_lines_of)
  have "\<forall>l\<in>set ls. CHR ''\<newline>'' \<notin> set l"
    unfolding ls_def by (auto dest: lines_of_no_newline)
  then have "pieces CHR ''\<newline>'' [] (concat (map (\<lambda>l. l @ ''\<newline>'') ls) @ []) = ls @ pieces CHR ''\<newline>'' [] []"
    by (rule pieces_join)
  then have lines: "lines_of (concat (map (\<lambda>v. v @ ''\<newline>'') vs)) = ls"
    by (simp add: lines_of_def flat)
  have "\<forall>b\<in>set (map lines_of vs). [] \<notin> set b"
    using assms by simp
  then have "pieces [] [] (concat (map (\<lambda>b. b @ [[]]) (map lines_of vs)) @ []) = map lines_of vs @ pieces [] [] []"
    by (rule pieces_join)
  then have "blocks_of ls = map lines_of vs"
    by (simp add: blocks_of_def ls_def)
  with lines show ?thesis by (simp add: records_of_def)
qed

subsection \<open>The loop and the writes\<close>

lemma bit_widths_eq:
  "bit_widths = [8, 16, 24, 32, 40, 48, 56, 64] @ [72, 80, 88, 96, 104, 112, 120, 128]
     @ [136, 144, 152, 160, 168, 176, 184, 192] @ [200, 208, 216, 224, 232, 240, 248, 256]"
  unfolding bit_widths_def by (simp add: py_range.simps)

lemma bit_widths_upto: "bit_widths = map (\<lambda>k. 8 * k) [1..32]"
  by (simp add: bit_widths_eq upto.simps)

lemma loop_body_underlying:
  "loop_body w st = add_methods_for_bit_width w (fst (underlying_types w)) (snd (underlying_types w)) st"
  by (simp add: loop_body_def underlying_types_def)

lemma fold_loop_body:
  "fold loop_body ws st =
     \<lparr>int_versions = int_versions st @ map (\<lambda>w. int_version_text w (fst (underlying_types w))) ws,
      uint_versions = uint_versions st @ map (\<lambda>w. uint_version_text w (snd (underlying_types w))) ws,
      int_array_versions =
        int_array_versions st @ map (\<lambda>w. int_array_version_text w (fst (underlying_types w))) ws,
      uint_array_versions =
        uint_array_versions st @ map (\<lambda>w. uint_array_version_text w (snd (underlying_types w))) ws\<rparr>"
  by (induction ws arbitrary: st) (simp_all add: loop_body_underlying add_methods_for_bit_width_def)

lemma generated_eq:
  "generated =
     \<lparr>int_versions = map (\<lambda>w. int_version_text w (fst (underlying_types w))) bit_widths,
      uint_versions = map (\<lambda>w. uint_version_text w (snd (underlying_types w))) bit_widths,
      int_array_versions = map (\<lambda>w. int_array_version_text w (fst (underlying_types w))) bit_widths,
      uint_array_versions = map (\<lambda>w. uint_array_version_text w (snd (underlying_types w))) bit_widths\<rparr>"
  by (simp add: generated_def fold_loop_body init_state_def)

lemma io_ok_update [simp]: "io_ok (w\<lparr>files := f\<rparr>) = io_ok w" "io_ok (w\<lparr>io_count := n\<rparr>) = io_ok w"
  by simp_all

lemma write_each_ok:
  "\<forall>k<length vs. io_ok w (io_count w + k) \<Longrightarrow> files w f = Some old \<Longrightarrow>
   write_each f vs w =
     Inr (w\<lparr>io_count := io_count w + length vs,
           files := (files w)(f \<mapsto> old @ concat (map (\<lambda>v. v @ ''\<newline>'') vs))\<rparr>)"
proof (induction vs arbitrary: w old)
  case Nil
  then show ?case by (simp add: fun_upd_idem)
next
  case (Cons v vs)
  from Cons.prems(1) have ok0: "io_ok w (io_count w)" by force
  let ?w' = "w\<lparr>io_count := Suc (io_count w), files := (files w)(f \<mapsto> old @ v @ ''\<newline>'')\<rparr>"
  have step: "py_write f (v @ ''\<newline>'') w = Inr ?w'"
    using ok0 Cons.prems(2) by (simp add: py_write_def io_op_def)
  have "\<forall>k<length vs. io_ok ?w' (io_count ?w' + k)"
  proof (intro allI impI)
    fix k assume "k < length vs"
    then have "Suc k < length (v # vs)" by simp
    with Cons.prems(1) have "io_ok w (io_count w + Suc k)" by blast
    then show "io_ok ?w' (io_count ?w' + k)" by simp
  qed
  moreover have "files ?w' f = Some (old @ v @ ''\<newline>'')" by simp
  ultimately have "write_each f vs ?w' =
     Inr (?w'\<lparr>io_count := io_count ?w' + length vs,
           files := (files ?w')(f \<mapsto> (old @ v @ ''\<newline>'') @ concat (map (\<lambda>v. v @ ''\<newline>'') vs))\<rparr>)"
    by (rule Cons.IH)
  moreover have "?w'\<lparr>io_count := io_count ?w' + length vs,
           files := (files ?w')(f \<mapsto> (old @ v @ ''\<newline>'') @ concat (map (\<lambda>v. v @ ''\<newline>'') vs))\<rparr>
       = w\<lparr>io_count := io_count w + length (v # vs),
           files := (files w)(f \<mapsto> old @ concat (map (\<lambda>v. v @ ''\<newline>'') (v # vs)))\<rparr>"
    by (rule world.equality) simp_all
  ultimately show ?case using step by (simp only: write_each.simps sum.case)
qed

lemma write_each_fails:
  "\<exists>k<length vs. \<not> io_ok w (io_count w + k) \<Longrightarrow> write_each f vs w = Inl OSError"
proof (induction vs arbitrary: w)
  case Nil
  then show ?case by simp
next
  case (Cons v vs)
  show ?case
  proof (cases "io_ok w (io_count w)")
    case False
    then show ?thesis by (simp add: py_write_def io_op_def)
  next
    case True
    from Cons.prems obtain k where k: "k < length (v # vs)" "\<not> io_ok w (io_count w + k)" by blast
    with True have "k \<noteq> 0" by (cases k) auto
    then obtain j where j: "k = Suc j" by (cases k) auto
    obtain w' where w': "py_write f (v @ ''\<newline>'') w = Inr w'"
      "io_count w' = Suc (io_count w)" "io_ok w' = io_ok w"
      using True by (simp add: py_write_def io_op_def)
    have "\<exists>k<length vs. \<not> io_ok w' (io_count w' + k)"
      using k j w' by auto
    then have "write_each f vs w' = Inl OSError" by (rule Cons.IH)
    then show ?thesis using w' by simp
  qed
qed

lemma length_bit_widths: "length bit_widths = 32"
  by (simp add: bit_widths_eq)

lemma length_generated:
  "length (int_versions generated) = 32" "length (int_array_versions generated) = 32"
  "length (uint_versions generated) = 32" "length (uint_array_versions generated) = 32"
  by (simp_all add: generated_eq length_bit_widths)

lemma write_each_result:
  assumes "files w f = Some old"
  shows "write_each f vs w =
     (if \<forall>k<length vs. io_ok w (io_count w + k)
      then Inr (w\<lparr>io_count := io_count w + length vs,
                 files := (files w)(f \<mapsto> old @ concat (map (\<lambda>v. v @ ''\<newline>'') vs))\<rparr>)
      else Inl OSError)"
  using assms write_each_ok [of vs w f old] write_each_fails [of vs w f] by auto

lemma all_less_add: "(\<forall>k<m + n. P k) \<longleftrightarrow> (\<forall>k<m. P k) \<and> (\<forall>k<n. P (m + k))" for m n :: nat
proof
  assume a: "\<forall>k<m + n. P k"
  show "(\<forall>k<m. P k) \<and> (\<forall>k<n. P (m + k))"
  proof (intro conjI allI impI)
    fix k assume "k < m"
    then have "k < m + n" by simp
    with a show "P k" by blast
  next
    fix k assume "k < n"
    then have "m + k < m + n" by simp
    with a show "P (m + k)" by blast
  qed
next
  assume b: "(\<forall>k<m. P k) \<and> (\<forall>k<n. P (m + k))"
  show "\<forall>k<m + n. P k"
  proof (intro allI impI)
    fix k assume "k < m + n"
    show "P k"
    proof (cases "k < m")
      case True
      with b show ?thesis by simp
    next
      case False
      then have "k = m + (k - m)" "k - m < n" using \<open>k < m + n\<close> by simp_all
      with b show ?thesis by metis
    qed
  qed
qed

lemma all_io_split:
  "(\<forall>k<130. io_ok w (c + k)) \<longleftrightarrow>
     io_ok w c \<and> (\<forall>k<32. io_ok w (c + 1 + k)) \<and> (\<forall>k<32. io_ok w (c + 33 + k))
     \<and> (\<forall>k<32. io_ok w (c + 65 + k)) \<and> (\<forall>k<32. io_ok w (c + 97 + k)) \<and> io_ok w (c + 129)"
proof -
  have "(\<forall>k<130. io_ok w (c + k)) \<longleftrightarrow> (\<forall>k<1 + (32 + (32 + (32 + (32 + 1)))). io_ok w (c + k))"
    by simp
  also have "\<dots> \<longleftrightarrow> io_ok w c \<and> (\<forall>k<32. io_ok w (c + 1 + k)) \<and> (\<forall>k<32. io_ok w (c + 33 + k))
     \<and> (\<forall>k<32. io_ok w (c + 65 + k)) \<and> (\<forall>k<32. io_ok w (c + 97 + k)) \<and> io_ok w (c + 129)"
    by (simp only: all_less_add) (simp add: add.assoc)
  finally show ?thesis .
qed

lemma script_result:
  "script w =
     (if \<forall>k<130. io_ok w (io_count w + k)
      then Inr (w\<lparr>io_count := io_count w + 130,
                 files := (files w)(''output.txt'' \<mapsto> output_text)\<rparr>)
      else Inl OSError)"
proof -
  let ?f = "''output.txt''"
  let ?c = "io_count w"
  let ?t1 = "concat (map (\<lambda>v. v @ ''\<newline>'') (int_versions generated))"
  let ?t2 = "?t1 @ concat (map (\<lambda>v. v @ ''\<newline>'') (int_array_versions generated))"
  let ?t3 = "?t2 @ concat (map (\<lambda>v. v @ ''\<newline>'') (uint_versions generated))"
  let ?t4 = "?t3 @ concat (map (\<lambda>v. v @ ''\<newline>'') (uint_array_versions generated))"
  define w1 where "w1 = w\<lparr>io_count := Suc ?c, files := (files w)(?f \<mapsto> [])\<rparr>"
  define w2 where "w2 = w1\<lparr>io_count := io_count w1 + 32, files := (files w1)(?f \<mapsto> [] @ ?t1)\<rparr>"
  define w3 where "w3 = w2\<lparr>io_count := io_count w2 + 32, files := (files w2)(?f \<mapsto> ?t1 @ concat (map (\<lambda>v. v @ ''\<newline>'') (int_array_versions generated)))\<rparr>"
  define w4 where "w4 = w3\<lparr>io_count := io_count w3 + 32, files := (files w3)(?f \<mapsto> ?t2 @ concat (map (\<lambda>v. v @ ''\<newline>'') (uint_versions generated)))\<rparr>"
  define w5 where "w5 = w4\<lparr>io_count := io_count w4 + 32, files := (files w4)(?f \<mapsto> ?t3 @ concat (map (\<lambda>v. v @ ''\<newline>'') (uint_array_versions generated)))\<rparr>"
  have opn: "py_open_w ?f w = (if io_ok w ?c then Inr w1 else Inl OSError)"
    by (simp add: py_open_w_def io_op_def w1_def)
  have f1: "files w1 ?f = Some []" by (simp add: w1_def)
  have f2: "files w2 ?f = Some ?t1" by (simp add: w2_def)
  have f3: "files w3 ?f = Some ?t2" by (simp add: w3_def)
  have f4: "files w4 ?f = Some ?t3" by (simp add: w4_def)
  have c1: "io_count w1 = ?c + 1" "io_ok w1 = io_ok w" by (simp_all add: w1_def)
  have c2: "io_count w2 = ?c + 33" "io_ok w2 = io_ok w" by (simp_all add: w2_def c1)
  have c3: "io_count w3 = ?c + 65" "io_ok w3 = io_ok w" by (simp_all add: w3_def c2)
  have c4: "io_count w4 = ?c + 97" "io_ok w4 = io_ok w" by (simp_all add: w4_def c3)
  have c5: "io_count w5 = ?c + 129" "io_ok w5 = io_ok w" by (simp_all add: w5_def c4)
  have s1: "write_each ?f (int_versions generated) w1 =
      (if \<forall>k<32. io_ok w (?c + 1 + k) then Inr w2 else Inl OSError)"
    using write_each_result [OF f1, of "int_versions generated"]
    by (simp only: length_generated c1 w2_def)
  have s2: "write_each ?f (int_array_versions generated) w2 =
      (if \<forall>k<32. io_ok w (?c + 33 + k) then Inr w3 else Inl OSError)"
    using write_each_result [OF f2, of "int_array_versions generated"]
    by (simp only: length_generated c2 w3_def)
  have s3: "write_each ?f (uint_versions generated) w3 =
      (if \<forall>k<32. io_ok w (?c + 65 + k) then Inr w4 else Inl OSError)"
    using write_each_result [OF f3, of "uint_versions generated"]
    by (simp only: length_generated c3 w4_def)
  have s4: "write_each ?f (uint_array_versions generated) w4 =
      (if \<forall>k<32. io_ok w (?c + 97 + k) then Inr w5 else Inl OSError)"
    using write_each_result [OF f4, of "uint_array_versions generated"]
    by (simp only: length_generated c4 w5_def)
  have cls: "py_close ?f w5 =
      (if io_ok w (?c + 129) then Inr (w5\<lparr>io_count := Suc (io_count w5)\<rparr>) else Inl OSError)"
    by (simp add: py_close_def io_op_def c5)
  have fin: "w5\<lparr>io_count := Suc (io_count w5)\<rparr> =
      w\<lparr>io_count := ?c + 130, files := (files w)(?f \<mapsto> output_text)\<rparr>"
    by (rule world.equality)
       (simp_all add: w5_def w4_def w3_def w2_def w1_def output_text_def written_def)
  have "script w =
     (if io_ok w ?c \<and> (\<forall>k<32. io_ok w (?c + 1 + k)) \<and> (\<forall>k<32. io_ok w (?c + 33 + k))
         \<and> (\<forall>k<32. io_ok w (?c + 65 + k)) \<and> (\<forall>k<32. io_ok w (?c + 97 + k)) \<and> io_ok w (?c + 129)
      then Inr (w5\<lparr>io_count := Suc (io_count w5)\<rparr>) else Inl OSError)"
    unfolding script_def Let_def opn
    by (simp add: s1 s2 s3 s4 cls)
  then show ?thesis
    by (simp only: fin all_io_split [symmetric])
qed

subsection \<open>The written text, read back\<close>

lemma underlying_types_plain:
  "CHR ''\<newline>'' \<notin> set (fst (underlying_types w))" "CHR '')'' \<notin> set (fst (underlying_types w))"
  "CHR ''\<newline>'' \<notin> set (snd (underlying_types w))" "CHR '')'' \<notin> set (snd (underlying_types w))"
  by (simp_all add: underlying_types_def)

lemma parse_version_text:
  "parse_stub (lines_of (version_text c w)) = Some (expected_stub c w)"
  by (cases c)
     (simp_all add: version_text_def expected_stub_def underlying_types_plain
        parse_int_version_text parse_int_array_version_text
        parse_uint_version_text parse_uint_array_version_text)

lemma version_text_ends: "version_text c w \<noteq> [] \<and> last (version_text c w) = CHR ''\<newline>''"
  by (cases c)
     (simp_all add: version_text_def int_version_text_def int_array_version_text_def
        uint_version_text_def uint_array_version_text_def)

lemma version_text_no_empty_line: "[] \<notin> set (lines_of (version_text c w))"
  by (cases c)
     (simp_all add: version_text_def underlying_types_plain
        lines_of_int_version_text lines_of_int_array_version_text
        lines_of_uint_version_text lines_of_uint_array_version_text)

lemma length_lines_of_version_text: "length (lines_of (version_text c w)) = 5"
  by (cases c)
     (simp_all add: version_text_def underlying_types_plain
        lines_of_int_version_text lines_of_int_array_version_text
        lines_of_uint_version_text lines_of_uint_array_version_text)

lemma written_eq:
  "written = concat (map (\<lambda>c. map (version_text c) bit_widths) write_order)"
  by (simp add: written_def generated_eq write_order_def version_text_def)

lemma written_cases:
  "v \<in> set written \<Longrightarrow> \<exists>c w. w \<in> set bit_widths \<and> v = version_text c w"
  by (auto simp: written_eq)

lemma records_of_output: "records_of output_text = map lines_of written"
  unfolding output_text_def
proof (rule records_of_written, intro ballI)
  fix v assume "v \<in> set written"
  then obtain c w where "v = version_text c w" using written_cases by blast
  then show "v \<noteq> [] \<and> last v = CHR ''\<newline>'' \<and> [] \<notin> set (lines_of v)"
    using version_text_ends version_text_no_empty_line by simp
qed

lemma parsed_output:
  "map parse_stub (records_of output_text) =
     concat (map (\<lambda>c. map (\<lambda>w. Some (expected_stub c w)) bit_widths) write_order)"
  by (simp add: records_of_output written_eq write_order_def parse_version_text)

lemma script_output:
  "script w = Inr w' \<Longrightarrow> files w' ''output.txt'' = Some output_text"
  by (auto simp: script_result split: if_splits)

lemma bit_widths_mem: "w \<in> set bit_widths \<Longrightarrow> 0 \<le> w \<and> w mod 8 = 0"
  by (auto simp: bit_widths_eq)

lemma kind_expected: "0 \<le> w \<Longrightarrow> parse_solidity_type (doc_type (expected_stub c w)) = Some (c, w)"
  by (cases c) (simp_all add: expected_stub_def parse_solidity_type_int [simplified])

lemma record_kind_version_text:
  "0 \<le> w \<Longrightarrow> record_kind (lines_of (version_text c w)) = Some (c, w)"
  by (simp add: record_kind_def parse_version_text kind_expected)

lemma kinds_output:
  "map record_kind (records_of output_text) =
     concat (map (\<lambda>c. map (\<lambda>w. Some (c, w)) bit_widths) write_order)"
  by (simp add: records_of_output written_eq write_order_def record_kind_version_text bit_widths_mem)

lemma generated_nth:
  assumes "i < 32"
  shows "int_versions generated ! i = version_text SignedScalar (bit_widths ! i)"
    and "int_array_versions generated ! i = version_text SignedArray (bit_widths ! i)"
    and "uint_versions generated ! i = version_text UnsignedScalar (bit_widths ! i)"
    and "uint_array_versions generated ! i = version_text UnsignedArray (bit_widths ! i)"
  using assms by (simp_all add: generated_eq version_text_def length_bit_widths)

subsection \<open>Facts about a whole run\<close>

lemma script_succeeds:
  "\<forall>k<130. io_ok w (io_count w + k) \<Longrightarrow> \<exists>w'. script w = Inr w'"
  by (simp add: script_result)

lemma script_clean_world: "\<exists>w'. script clean_world = Inr w'"
  by (rule script_succeeds) (simp add: clean_world_def)

lemma filter_kind:
  "filter (\<lambda>k. map_option fst k = Some c) (map (\<lambda>w. Some (c', w)) ws)
     = (if c' = c then map (\<lambda>w. Some (c', w)) ws else [])"
  by (induction ws) auto

lemma version_text_written:
  "w \<in> set bit_widths \<Longrightarrow> version_text c w \<in> set written"
  by (cases c) (simp_all add: written_eq write_order_def)

lemma record_cases:
  assumes "r \<in> set (records_of output_text)"
  obtains c wd where "wd \<in> set bit_widths" "r = lines_of (version_text c wd)"
proof -
  from assms obtain v where "v \<in> set written" "r = lines_of v"
    by (auto simp: records_of_output)
  moreover from this obtain c wd where "wd \<in> set bit_widths" "v = version_text c wd"
    using written_cases by blast
  ultimately show thesis using that by blast
qed

lemma str_small: "str 1 = ''1''" "str 3 = ''3''" "str 8 = ''8''" "str 24 = ''24''"
  "str 32 = ''32''" "str 256 = ''256''"
  by (simp_all add: str_def str_nat.simps digits_def)

lemma bit_widths_some: "8 \<in> set bit_widths" "24 \<in> set bit_widths" "256 \<in> set bit_widths"
  by (simp_all add: bit_widths_eq)

lemma sorted_bit_widths: "sorted_wrt (<) bit_widths"
  by (simp add: bit_widths_eq)

lemma hd_last_written:
  "written \<noteq> []" "hd written = version_text SignedScalar 8"
  "last written = version_text UnsignedArray 256"
  by (simp_all add: written_eq write_order_def bit_widths_eq)

lemma first_record_lines:
  \<open>lines_of (version_text SignedScalar 8) =
     [''/// Add an `int8` argument to the `ContractFunctionParameters`'',
      ''#[allow(dead_code)]'',
      ''pub fn add_int8(&mut self, val: i8) -> &mut Self {'',
      ''    self.add_int(&val, "int8", 1)'',
      ''}'']\<close>
  by (simp add: version_text_def underlying_types_def lines_of_int_version_text str_small)

lemma last_record_lines:
  \<open>lines_of (version_text UnsignedArray 256) =
     [''/// Add a `uint256[]` argument to the `ContractFunctionParameters`'',
      ''#[allow(dead_code)]'',
      ''pub fn add_uint256_array(&mut self, values: &[BigUint]) -> &mut Self {'',
      ''    self.add_int_array(values, "uint256[]", 32)'',
      ''}'']\<close>
  by (simp add: version_text_def underlying_types_def lines_of_uint_array_version_text str_small)

lemma script_stale_world: "\<exists>w'. script stale_world = Inr w'"
  by (rule script_succeeds) (simp add: stale_world_def)

lemma script_files:
  "script w = Inr w' \<Longrightarrow> files w' = (files w)(''output.txt'' \<mapsto> output_text)"
  by (auto simp: script_result split: if_splits)

lemma script_io_ok:
  "script w = Inr w' \<Longrightarrow> io_ok w' = io_ok w"
  by (auto simp: script_result split: if_splits)

lemma version_text_layout:
  \<open>\<exists>doc decl body. lines_of (version_text c wd) = [doc, ''#[allow(dead_code)]'', decl, body, ''}'']
      \<and> take 4 doc = ''/// '' \<and> take 7 decl = ''pub fn '' \<and> last decl = CHR ''{''
      \<and> take 9 body = ''    self.'' \<and> last body = CHR '')''\<close>
  by (cases c)
     (simp_all add: version_text_def underlying_types_plain
        lines_of_int_version_text lines_of_int_array_version_text
        lines_of_uint_version_text lines_of_uint_array_version_text)

lemma output_text_rejoined:
  "output_text =
     concat (map (\<lambda>r. concat (map (\<lambda>l. l @ ''\<newline>'') r) @ ''\<newline>'') (records_of output_text))"
proof -
  have "concat (map (\<lambda>l. l @ ''\<newline>'') (lines_of v)) = v" if "v \<in> set written" for v
  proof -
    from that obtain c wd where "v = version_text c wd" using written_cases by blast
    then show ?thesis using version_text_ends by (simp add: unlines_lines_of)
  qed
  then have "map (\<lambda>r. concat (map (\<lambda>l. l @ ''\<newline>'') r) @ ''\<newline>'') (map lines_of written)
      = map (\<lambda>v. v @ ''\<newline>'') written"
    by simp
  then have eq: "concat (map (\<lambda>r. concat (map (\<lambda>l. l @ ''\<newline>'') r) @ ''\<newline>'') (records_of output_text))
      = concat (map (\<lambda>v. v @ ''\<newline>'') written)"
    by (simp only: records_of_output)
  show ?thesis
    by (rule trans [OF output_text_def eq [symmetric]])
qed

lemma str_suffix_absurd: "str a = str b @ CHR ''_'' # zs \<Longrightarrow> False"
proof -
  assume "str a = str b @ CHR ''_'' # zs"
  then have "CHR ''_'' \<in> set (str a)" by simp
  then show False by simp
qed

lemma fn_name_inject:
  assumes "0 \<le> a" "0 \<le> b"
    and "fn_name (expected_stub c a) = fn_name (expected_stub d b)"
  shows "c = d \<and> a = b"
  using assms
  by (cases c; cases d)
     (auto simp: expected_stub_def dest: str_inject str_suffix_absurd str_suffix_absurd [OF sym])

lemma distinct_write_order: "distinct write_order"
  by (simp add: write_order_def)

lemma distinct_bit_widths: "distinct bit_widths"
  using sorted_bit_widths by (simp add: strict_sorted_iff)

lemma concat_as_product:
  "concat (map (\<lambda>c. map (f c) ws) cs) = map (\<lambda>(c, w). f c w) (List.product cs ws)"
  by (induction cs) (simp_all add: o_def)

lemma names_distinct:
  "distinct (concat (map (\<lambda>c. map (\<lambda>wd. fn_name (expected_stub c wd)) bit_widths) write_order))"
proof -
  have "inj_on (\<lambda>(c, wd). fn_name (expected_stub c wd)) (set (List.product write_order bit_widths))"
    by (rule inj_onI) (auto dest!: bit_widths_mem dest: fn_name_inject)
  moreover have "distinct (List.product write_order bit_widths)"
    by (simp add: distinct_product distinct_write_order distinct_bit_widths)
  ultimately show ?thesis
    by (simp only: concat_as_product distinct_map)
qed

section \<open>The claims\<close>

text \<open>
  Claim C1. Every generated record takes its Rust types from its bit width by the range
  rule: the loop body is \<^verbatim>\<open>add_methods_for_bit_width\<close> called with the pair that
  \<open>underlying_types\<close> gives, and the parameter read back from the record at position
  \<open>i\<close> of each list is that pair's signed or unsigned name for the width at position
  \<open>i\<close> (as \<^verbatim>\<open>&[T]\<close> in the array lists). Width 64 resolves to the 64-bit pair, and
  over the 32 widths 8, 16, ..., 256 the rule gives the 8-bit pair once, the 16-bit pair
  once, the 32-bit pair twice, the 64-bit pair four times, the 128-bit pair eight times
  and the arbitrary-precision pair for the sixteen widths above 128.
\<close>

theorem type_pair_by_range_rule:
  "(\<forall>w st. loop_body w st =
        add_methods_for_bit_width w (fst (underlying_types w)) (snd (underlying_types w)) st)
   \<and> (\<forall>i<32.
        map_option param_type (parse_stub (lines_of (int_versions generated ! i)))
          = Some (fst (underlying_types (bit_widths ! i)))
      \<and> map_option param_type (parse_stub (lines_of (int_array_versions generated ! i)))
          = Some (''&['' @ fst (underlying_types (bit_widths ! i)) @ '']'')
      \<and> map_option param_type (parse_stub (lines_of (uint_versions generated ! i)))
          = Some (snd (underlying_types (bit_widths ! i)))
      \<and> map_option param_type (parse_stub (lines_of (uint_array_versions generated ! i)))
          = Some (''&['' @ snd (underlying_types (bit_widths ! i)) @ '']''))
   \<and> underlying_types 64 = (''i64'', ''u64'')
   \<and> bit_widths = map (\<lambda>k. 8 * k) [1..32]
   \<and> map underlying_types bit_widths =
        [(''i8'', ''u8''), (''i16'', ''u16''), (''i32'', ''u32''), (''i32'', ''u32''),
         (''i64'', ''u64''), (''i64'', ''u64''), (''i64'', ''u64''), (''i64'', ''u64'')]
        @ replicate 8 (''i128'', ''u128'') @ replicate 16 (''BigInt'', ''BigUint'')"
proof (intro conjI allI impI)
  fix w st
  show "loop_body w st =
        add_methods_for_bit_width w (fst (underlying_types w)) (snd (underlying_types w)) st"
    by (rule loop_body_underlying)
next
  fix i :: nat assume "i < 32"
  then show "map_option param_type (parse_stub (lines_of (int_versions generated ! i)))
          = Some (fst (underlying_types (bit_widths ! i)))"
    by (simp add: generated_nth parse_version_text expected_stub_def)
next
  fix i :: nat assume "i < 32"
  then show "map_option param_type (parse_stub (lines_of (int_array_versions generated ! i)))
          = Some (''&['' @ fst (underlying_types (bit_widths ! i)) @ '']'')"
    by (simp add: generated_nth parse_version_text expected_stub_def)
next
  fix i :: nat assume "i < 32"
  then show "map_option param_type (parse_stub (lines_of (uint_versions generated ! i)))
          = Some (snd (underlying_types (bit_widths ! i)))"
    by (simp add: generated_nth parse_version_text expected_stub_def)
next
  fix i :: nat assume "i < 32"
  then show "map_option param_type (parse_stub (lines_of (uint_array_versions generated ! i)))
          = Some (''&['' @ snd (underlying_types (bit_widths ! i)) @ '']'')"
    by (simp add: generated_nth parse_version_text expected_stub_def)
next
  show "underlying_types 64 = (''i64'', ''u64'')"
    by (simp add: underlying_types_def)
next
  show "bit_widths = map (\<lambda>k. 8 * k) [1..32]"
    by (rule bit_widths_upto)
next
  show "map underlying_types bit_widths =
        [(''i8'', ''u8''), (''i16'', ''u16''), (''i32'', ''u32''), (''i32'', ''u32''),
         (''i64'', ''u64''), (''i64'', ''u64''), (''i64'', ''u64''), (''i64'', ''u64'')]
        @ replicate 8 (''i128'', ''u128'') @ replicate 16 (''BigInt'', ''BigUint'')"
    by (simp add: bit_widths_eq underlying_types_def numeral_eq_Suc)
qed

theorem type_pair_by_range_rule_witness:
  "map_option param_type (parse_stub (lines_of (int_versions generated ! 7))) = Some ''i64''
   \<and> map_option param_type (parse_stub (lines_of (uint_array_versions generated ! 7))) = Some ''&[u64]''"
proof -
  note at7 = type_pair_by_range_rule [THEN conjunct2, THEN conjunct1, rule_format, of 7]
  have w: "bit_widths ! 7 = 64" by (simp add: bit_widths_eq)
  have t: "underlying_types 64 = (''i64'', ''u64'')" by (simp add: underlying_types_def)
  have "(7::nat) < 32" by simp
  from at7 [OF this] show ?thesis by (simp only: w t fst_conv snd_conv) simp
qed

text \<open>
  Claim C2. After a run that succeeds, \<^verbatim>\<open>output.txt\<close> holds 128 records. For each of
  the four categories, the records of that category are 32, and their widths, in the
  order they stand in the file, are 8 times 1, 2, ..., 32: one record per bit width 8,
  16, 24, ..., 256.
\<close>

theorem output_has_32_records_per_category:
  assumes "script w = Inr w'"
  shows "\<exists>out. files w' ''output.txt'' = Some out
     \<and> length (records_of out) = 128
     \<and> (\<forall>c. filter (\<lambda>k. map_option fst k = Some c) (map record_kind (records_of out))
              = map (\<lambda>k. Some (c, 8 * k)) [1..32])
     \<and> (\<forall>c. length (filter (\<lambda>k. map_option fst k = Some c) (map record_kind (records_of out))) = 32)"
proof -
  have out: "files w' ''output.txt'' = Some output_text"
    using assms by (rule script_output)
  have len: "length (records_of output_text) = 128"
    by (simp add: records_of_output written_eq write_order_def length_bit_widths)
  have per: "filter (\<lambda>k. map_option fst k = Some c) (map record_kind (records_of output_text))
              = map (\<lambda>w. Some (c, w)) bit_widths" for c
    by (cases c) (simp_all add: kinds_output write_order_def filter_kind)
  have widths: "map (\<lambda>w. Some (c, w)) bit_widths = map (\<lambda>k. Some (c, 8 * k)) [1..32]" for c :: category
    by (simp add: bit_widths_upto o_def)
  have cnt: "length (filter (\<lambda>k. map_option fst k = Some c) (map record_kind (records_of output_text))) = 32" for c
    by (simp only: per length_map length_bit_widths)
  show ?thesis
    using out len per widths cnt by (intro exI [of _ output_text]) simp
qed

theorem output_has_32_records_per_category_witness:
  "\<exists>w' out. script clean_world = Inr w' \<and> files w' ''output.txt'' = Some out
      \<and> length (records_of out) = 128
      \<and> length (filter (\<lambda>k. map_option fst k = Some SignedArray) (map record_kind (records_of out))) = 32"
proof -
  obtain w' where run: "script clean_world = Inr w'"
    using script_clean_world by blast
  from output_has_32_records_per_category [OF run] obtain out where
    "files w' ''output.txt'' = Some out" "length (records_of out) = 128"
    "\<forall>c. length (filter (\<lambda>k. map_option fst k = Some c) (map record_kind (records_of out))) = 32"
    by blast
  with run show ?thesis by blast
qed

text \<open>
  Claim C3. In every record of the written file, the last argument of the delegated call
  is the decimal numeral of the record's width divided by 8, and the division is exact:
  8 times the quotient is the width. In every category the record of width 24 passes
  \<^verbatim>\<open>3\<close> and the record of width 256 passes \<^verbatim>\<open>32\<close>.
\<close>

theorem byte_count_is_width_div_8:
  assumes "script w = Inr w'"
  shows "\<exists>out. files w' ''output.txt'' = Some out
     \<and> (\<forall>r\<in>set (records_of out). \<exists>s c wd. parse_stub r = Some s \<and> record_kind r = Some (c, wd)
            \<and> parse_decimal (byte_arg s) = Some (wd div 8) \<and> 8 * (wd div 8) = wd)
     \<and> (\<forall>c. \<exists>r\<in>set (records_of out). record_kind r = Some (c, 24)
            \<and> map_option byte_arg (parse_stub r) = Some ''3'')
     \<and> (\<forall>c. \<exists>r\<in>set (records_of out). record_kind r = Some (c, 256)
            \<and> map_option byte_arg (parse_stub r) = Some ''32'')"
proof -
  have out: "files w' ''output.txt'' = Some output_text"
    using assms by (rule script_output)
  have every: "\<exists>s c wd. parse_stub r = Some s \<and> record_kind r = Some (c, wd)
            \<and> parse_decimal (byte_arg s) = Some (wd div 8) \<and> 8 * (wd div 8) = wd"
    if "r \<in> set (records_of output_text)" for r
  proof -
    from that obtain c wd where wd: "wd \<in> set bit_widths" and r: "r = lines_of (version_text c wd)"
      by (rule record_cases)
    from wd have nonneg: "0 \<le> wd" and mult: "wd mod 8 = 0"
      using bit_widths_mem by simp_all
    have "byte_arg (expected_stub c wd) = str (wd div 8)"
      by (cases c) (simp_all add: expected_stub_def)
    moreover have "0 \<le> wd div 8" using nonneg by simp
    ultimately have "parse_decimal (byte_arg (expected_stub c wd)) = Some (wd div 8)"
      by (simp add: parse_decimal_str)
    moreover have "8 * (wd div 8) = wd" using mult by presburger
    ultimately show ?thesis
      using r nonneg by (simp add: parse_version_text record_kind_version_text)
  qed
  have example: "\<exists>r\<in>set (records_of output_text). record_kind r = Some (c, wd)
            \<and> map_option byte_arg (parse_stub r) = Some (str (wd div 8))"
    if "wd \<in> set bit_widths" for c wd
  proof -
    from that have "0 \<le> wd" using bit_widths_mem by simp
    moreover have "lines_of (version_text c wd) \<in> set (records_of output_text)"
      using that by (simp add: records_of_output version_text_written)
    moreover have "byte_arg (expected_stub c wd) = str (wd div 8)"
      by (cases c) (simp_all add: expected_stub_def)
    ultimately show ?thesis
      by (intro bexI [of _ "lines_of (version_text c wd)"])
         (simp_all add: parse_version_text record_kind_version_text)
  qed
  have ex24: "\<exists>r\<in>set (records_of output_text). record_kind r = Some (c, 24)
            \<and> map_option byte_arg (parse_stub r) = Some ''3''" for c
    using example [OF bit_widths_some(2), of c] by (simp add: str_small)
  have ex256: "\<exists>r\<in>set (records_of output_text). record_kind r = Some (c, 256)
            \<and> map_option byte_arg (parse_stub r) = Some ''32''" for c
    using example [OF bit_widths_some(3), of c] by (simp add: str_small)
  show ?thesis
    using out every ex24 ex256 by (intro exI [of _ output_text]) blast
qed

theorem byte_count_is_width_div_8_witness:
  "\<exists>w' out. script clean_world = Inr w' \<and> files w' ''output.txt'' = Some out
     \<and> (\<exists>r\<in>set (records_of out). record_kind r = Some (UnsignedScalar, 24)
            \<and> map_option byte_arg (parse_stub r) = Some ''3'')"
proof -
  obtain w' where run: "script clean_world = Inr w'"
    using script_clean_world by blast
  from byte_count_is_width_div_8 [OF run] obtain out where
    "files w' ''output.txt'' = Some out"
    "\<forall>c. \<exists>r\<in>set (records_of out). record_kind r = Some (c, 24)
            \<and> map_option byte_arg (parse_stub r) = Some ''3''"
    by blast
  with run show ?thesis by blast
qed

text \<open>
  Claim C4. The records of the written file are four blocks in the order signed scalar,
  signed array, unsigned scalar, unsigned array, each block running through the widths
  8, 16, ..., 256 in strictly increasing order. The blocks are the four lists as the loop
  left them, and a pass of the loop body does nothing to a list but put one record at
  its end.
\<close>

theorem four_blocks_in_ascending_width_order:
  assumes "script w = Inr w'"
  shows "\<exists>out. files w' ''output.txt'' = Some out
     \<and> map record_kind (records_of out) =
           map (\<lambda>wd. Some (SignedScalar, wd)) bit_widths
         @ map (\<lambda>wd. Some (SignedArray, wd)) bit_widths
         @ map (\<lambda>wd. Some (UnsignedScalar, wd)) bit_widths
         @ map (\<lambda>wd. Some (UnsignedArray, wd)) bit_widths
     \<and> bit_widths = map (\<lambda>k. 8 * k) [1..32]
     \<and> sorted_wrt (<) bit_widths
     \<and> records_of out =
           map lines_of (int_versions generated) @ map lines_of (int_array_versions generated)
         @ map lines_of (uint_versions generated) @ map lines_of (uint_array_versions generated)
     \<and> (\<forall>bw st. \<exists>a b c d.
           int_versions (loop_body bw st) = int_versions st @ [a]
         \<and> int_array_versions (loop_body bw st) = int_array_versions st @ [b]
         \<and> uint_versions (loop_body bw st) = uint_versions st @ [c]
         \<and> uint_array_versions (loop_body bw st) = uint_array_versions st @ [d])"
proof -
  have out: "files w' ''output.txt'' = Some output_text"
    using assms by (rule script_output)
  have kinds: "map record_kind (records_of output_text) =
           map (\<lambda>wd. Some (SignedScalar, wd)) bit_widths
         @ map (\<lambda>wd. Some (SignedArray, wd)) bit_widths
         @ map (\<lambda>wd. Some (UnsignedScalar, wd)) bit_widths
         @ map (\<lambda>wd. Some (UnsignedArray, wd)) bit_widths"
    by (simp add: kinds_output write_order_def)
  have recs: "records_of output_text =
           map lines_of (int_versions generated) @ map lines_of (int_array_versions generated)
         @ map lines_of (uint_versions generated) @ map lines_of (uint_array_versions generated)"
    by (simp add: records_of_output written_def)
  have app: "\<exists>a b c d.
           int_versions (loop_body bw st) = int_versions st @ [a]
         \<and> int_array_versions (loop_body bw st) = int_array_versions st @ [b]
         \<and> uint_versions (loop_body bw st) = uint_versions st @ [c]
         \<and> uint_array_versions (loop_body bw st) = uint_array_versions st @ [d]" for bw st
    by (simp add: loop_body_underlying add_methods_for_bit_width_def)
  then have app': "\<forall>bw st. \<exists>a b c d.
           int_versions (loop_body bw st) = int_versions st @ [a]
         \<and> int_array_versions (loop_body bw st) = int_array_versions st @ [b]
         \<and> uint_versions (loop_body bw st) = uint_versions st @ [c]
         \<and> uint_array_versions (loop_body bw st) = uint_array_versions st @ [d]"
    by blast
  show ?thesis
    by (intro exI [of _ output_text] conjI out kinds recs app' bit_widths_upto sorted_bit_widths)
qed

theorem four_blocks_in_ascending_width_order_witness:
  "\<exists>w' out. script clean_world = Inr w' \<and> files w' ''output.txt'' = Some out
     \<and> map record_kind (records_of out) =
           map (\<lambda>wd. Some (SignedScalar, wd)) bit_widths
         @ map (\<lambda>wd. Some (SignedArray, wd)) bit_widths
         @ map (\<lambda>wd. Some (UnsignedScalar, wd)) bit_widths
         @ map (\<lambda>wd. Some (UnsignedArray, wd)) bit_widths"
proof -
  obtain w' where run: "script clean_world = Inr w'"
    using script_clean_world by blast
  from four_blocks_in_ascending_width_order [OF run] obtain out where
    "files w' ''output.txt'' = Some out"
    "map record_kind (records_of out) =
           map (\<lambda>wd. Some (SignedScalar, wd)) bit_widths
         @ map (\<lambda>wd. Some (SignedArray, wd)) bit_widths
         @ map (\<lambda>wd. Some (UnsignedScalar, wd)) bit_widths
         @ map (\<lambda>wd. Some (UnsignedArray, wd)) bit_widths"
    by blast
  with run show ?thesis by blast
qed

text \<open>
  Claim C5. For the width \<open>w\<close> at every position of the four lists, the scalar records
  declare \<^verbatim>\<open>add_int<w>\<close> and \<^verbatim>\<open>add_uint<w>\<close> and document \<^verbatim>\<open>int<w>\<close> and \<^verbatim>\<open>uint<w>\<close>,
  and the array records declare \<^verbatim>\<open>add_int<w>_array\<close> and \<^verbatim>\<open>add_uint<w>_array\<close> and
  document \<^verbatim>\<open>int<w>[]\<close> and \<^verbatim>\<open>uint<w>[]\<close>. At width 24 these are \<^verbatim>\<open>add_int24_array\<close>
  with \<^verbatim>\<open>int24[]\<close> and \<^verbatim>\<open>add_uint24_array\<close> with \<^verbatim>\<open>uint24[]\<close>.
\<close>

theorem names_and_documented_types:
  "(\<forall>i<32.
        map_option (\<lambda>s. (fn_name s, doc_type s)) (parse_stub (lines_of (int_versions generated ! i)))
          = Some (''add_int'' @ str (bit_widths ! i), ''int'' @ str (bit_widths ! i))
      \<and> map_option (\<lambda>s. (fn_name s, doc_type s)) (parse_stub (lines_of (uint_versions generated ! i)))
          = Some (''add_uint'' @ str (bit_widths ! i), ''uint'' @ str (bit_widths ! i))
      \<and> map_option (\<lambda>s. (fn_name s, doc_type s)) (parse_stub (lines_of (int_array_versions generated ! i)))
          = Some (''add_int'' @ str (bit_widths ! i) @ ''_array'', ''int'' @ str (bit_widths ! i) @ ''[]'')
      \<and> map_option (\<lambda>s. (fn_name s, doc_type s)) (parse_stub (lines_of (uint_array_versions generated ! i)))
          = Some (''add_uint'' @ str (bit_widths ! i) @ ''_array'', ''uint'' @ str (bit_widths ! i) @ ''[]''))
   \<and> bit_widths ! 2 = 24
   \<and> map_option (\<lambda>s. (fn_name s, doc_type s)) (parse_stub (lines_of (int_array_versions generated ! 2)))
        = Some (''add_int24_array'', ''int24[]'')
   \<and> map_option (\<lambda>s. (fn_name s, doc_type s)) (parse_stub (lines_of (uint_array_versions generated ! 2)))
        = Some (''add_uint24_array'', ''uint24[]'')"
proof -
  have every: "map_option (\<lambda>s. (fn_name s, doc_type s)) (parse_stub (lines_of (int_versions generated ! i)))
          = Some (''add_int'' @ str (bit_widths ! i), ''int'' @ str (bit_widths ! i))
      \<and> map_option (\<lambda>s. (fn_name s, doc_type s)) (parse_stub (lines_of (uint_versions generated ! i)))
          = Some (''add_uint'' @ str (bit_widths ! i), ''uint'' @ str (bit_widths ! i))
      \<and> map_option (\<lambda>s. (fn_name s, doc_type s)) (parse_stub (lines_of (int_array_versions generated ! i)))
          = Some (''add_int'' @ str (bit_widths ! i) @ ''_array'', ''int'' @ str (bit_widths ! i) @ ''[]'')
      \<and> map_option (\<lambda>s. (fn_name s, doc_type s)) (parse_stub (lines_of (uint_array_versions generated ! i)))
          = Some (''add_uint'' @ str (bit_widths ! i) @ ''_array'', ''uint'' @ str (bit_widths ! i) @ ''[]'')"
    if "i < 32" for i
    using that by (simp add: generated_nth parse_version_text expected_stub_def)
  have w24: "bit_widths ! 2 = 24" by (simp add: bit_widths_eq)
  have "(2::nat) < 32" by simp
  from every [OF this] have
    "map_option (\<lambda>s. (fn_name s, doc_type s)) (parse_stub (lines_of (int_array_versions generated ! 2)))
        = Some (''add_int24_array'', ''int24[]'')"
    "map_option (\<lambda>s. (fn_name s, doc_type s)) (parse_stub (lines_of (uint_array_versions generated ! 2)))
        = Some (''add_uint24_array'', ''uint24[]'')"
    by (simp_all add: w24 str_small)
  with every w24 show ?thesis by blast
qed

theorem names_and_documented_types_witness:
  "map_option (\<lambda>s. (fn_name s, doc_type s)) (parse_stub (lines_of (int_versions generated ! 31)))
     = Some (''add_int256'', ''int256'')"
proof -
  note at31 = names_and_documented_types [THEN conjunct1, rule_format, of 31]
  have w: "bit_widths ! 31 = 256" by (simp add: bit_widths_eq)
  have "(31::nat) < 32" by simp
  from at31 [OF this] show ?thesis by (simp add: w str_small)
qed

text \<open>
  Claim C6. The first record of the written file is the \<^verbatim>\<open>add_int8\<close> method, documented
  as \<^verbatim>\<open>int8\<close> and delegating with byte width 1; the last is \<^verbatim>\<open>add_uint256_array\<close>,
  documented as \<^verbatim>\<open>uint256[]\<close> and delegating with byte width 32. Width 8 has a record
  in every category, as every other width has. (The comment on line 9 of the script says
  that 8 bit versions are not generated; the loop starts at 8 and generates them.)
\<close>

theorem first_and_last_record:
  assumes \<open>script w = Inr w'\<close>
  shows \<open>\<exists>out. files w' ''output.txt'' = Some out
     \<and> records_of out \<noteq> []
     \<and> hd (records_of out) =
          [''/// Add an `int8` argument to the `ContractFunctionParameters`'',
           ''#[allow(dead_code)]'',
           ''pub fn add_int8(&mut self, val: i8) -> &mut Self {'',
           ''    self.add_int(&val, "int8", 1)'',
           ''}'']
     \<and> parse_stub (hd (records_of out)) =
          Some \<lparr>doc_type = ''int8'', fn_name = ''add_int8'', param_type = ''i8'',
                callee = ''self.add_int'', type_arg = ''int8'', byte_arg = ''1''\<rparr>
     \<and> last (records_of out) =
          [''/// Add a `uint256[]` argument to the `ContractFunctionParameters`'',
           ''#[allow(dead_code)]'',
           ''pub fn add_uint256_array(&mut self, values: &[BigUint]) -> &mut Self {'',
           ''    self.add_int_array(values, "uint256[]", 32)'',
           ''}'']
     \<and> parse_stub (last (records_of out)) =
          Some \<lparr>doc_type = ''uint256[]'', fn_name = ''add_uint256_array'',
                param_type = ''&[BigUint]'', callee = ''self.add_int_array'',
                type_arg = ''uint256[]'', byte_arg = ''32''\<rparr>
     \<and> (\<forall>c. Some (c, 8) \<in> set (map record_kind (records_of out)))\<close>
proof -
  have out: "files w' ''output.txt'' = Some output_text"
    using assms by (rule script_output)
  have ne: "records_of output_text \<noteq> []"
    by (simp add: records_of_output hd_last_written)
  have h: "hd (records_of output_text) = lines_of (version_text SignedScalar 8)"
    by (simp add: records_of_output hd_map hd_last_written)
  have l: "last (records_of output_text) = lines_of (version_text UnsignedArray 256)"
    by (simp add: records_of_output last_map hd_last_written)
  have ph: "parse_stub (lines_of (version_text SignedScalar 8)) =
          Some \<lparr>doc_type = ''int8'', fn_name = ''add_int8'', param_type = ''i8'',
                callee = ''self.add_int'', type_arg = ''int8'', byte_arg = ''1''\<rparr>"
    by (simp add: parse_version_text expected_stub_def underlying_types_def str_small)
  have pl: "parse_stub (lines_of (version_text UnsignedArray 256)) =
          Some \<lparr>doc_type = ''uint256[]'', fn_name = ''add_uint256_array'',
                param_type = ''&[BigUint]'', callee = ''self.add_int_array'',
                type_arg = ''uint256[]'', byte_arg = ''32''\<rparr>"
    by (simp add: parse_version_text expected_stub_def underlying_types_def str_small)
  have eight: "\<forall>c. Some (c, 8) \<in> set (map record_kind (records_of output_text))"
  proof
    fix c
    have "8 \<in> set bit_widths" by (rule bit_widths_some)
    then show "Some (c, 8) \<in> set (map record_kind (records_of output_text))"
      by (cases c) (simp_all add: kinds_output write_order_def)
  qed
  note hd_lines = first_record_lines [folded h]
  note last_lines = last_record_lines [folded l]
  note hd_parts = ph [folded h]
  note last_parts = pl [folded l]
  show ?thesis
    by (intro exI [of _ output_text] conjI out ne eight hd_lines last_lines hd_parts last_parts)
qed

theorem first_and_last_record_witness:
  "\<exists>w' out. script clean_world = Inr w' \<and> files w' ''output.txt'' = Some out
     \<and> map_option fn_name (parse_stub (hd (records_of out))) = Some ''add_int8''
     \<and> map_option fn_name (parse_stub (last (records_of out))) = Some ''add_uint256_array''"
proof -
  obtain w' where run: "script clean_world = Inr w'"
    using script_clean_world by blast
  from first_and_last_record [OF run] obtain out where
    "files w' ''output.txt'' = Some out"
    "parse_stub (hd (records_of out)) =
          Some \<lparr>doc_type = ''int8'', fn_name = ''add_int8'', param_type = ''i8'',
                callee = ''self.add_int'', type_arg = ''int8'', byte_arg = ''1''\<rparr>"
    "parse_stub (last (records_of out)) =
          Some \<lparr>doc_type = ''uint256[]'', fn_name = ''add_uint256_array'',
                param_type = ''&[BigUint]'', callee = ''self.add_int_array'',
                type_arg = ''uint256[]'', byte_arg = ''32''\<rparr>"
    by blast
  with run show ?thesis by simp
qed

text \<open>
  Claim C7. Any two runs that succeed leave the same text in \<^verbatim>\<open>output.txt\<close>, whatever
  the files and the I/O history they started from: the text is the constant
  \<open>output_text\<close>. A second run after a first changes no file.
\<close>

theorem runs_are_deterministic_and_idempotent:
  "(script w1 = Inr w1' \<longrightarrow> script w2 = Inr w2' \<longrightarrow>
       files w1' ''output.txt'' = Some output_text
     \<and> files w2' ''output.txt'' = files w1' ''output.txt'')
   \<and> (script w = Inr w' \<longrightarrow> script w' = Inr w'' \<longrightarrow> files w'' = files w')"
proof (intro conjI impI)
  assume "script w1 = Inr w1'"
  then show "files w1' ''output.txt'' = Some output_text" by (rule script_output)
next
  assume "script w1 = Inr w1'" "script w2 = Inr w2'"
  then show "files w2' ''output.txt'' = files w1' ''output.txt''"
    by (simp add: script_output)
next
  assume "script w = Inr w'" "script w' = Inr w''"
  then have "files w'' = (files w')(''output.txt'' \<mapsto> output_text)"
    and "files w' ''output.txt'' = Some output_text"
    by (simp_all add: script_files script_output)
  then show "files w'' = files w'" by (simp add: fun_upd_idem)
qed

theorem runs_are_deterministic_and_idempotent_witness:
  "\<exists>a b c. script clean_world = Inr a \<and> script stale_world = Inr b \<and> script a = Inr c
     \<and> files b ''output.txt'' = files a ''output.txt'' \<and> files c = files a"
proof -
  obtain a where a: "script clean_world = Inr a" using script_clean_world by blast
  obtain b where b: "script stale_world = Inr b" using script_stale_world by blast
  have "io_ok a = (\<lambda>k. True)"
    using script_io_ok [OF a] by (simp add: clean_world_def)
  then have "\<exists>c. script a = Inr c" by (intro script_succeeds) simp
  then obtain c where c: "script a = Inr c" by blast
  note inst = runs_are_deterministic_and_idempotent [of clean_world a stale_world b clean_world a c]
  from inst a b c have "files b ''output.txt'' = files a ''output.txt''" "files c = files a"
    by simp_all
  with a b c show ?thesis by blast
qed

text \<open>
  Claim C8. Every record of the written file is five lines: a doc comment, the line
  \<^verbatim>\<open>#[allow(dead_code)]\<close>, a declaration \<^verbatim>\<open>pub fn ... {\<close>, a body line
  \<^verbatim>\<open>self. ... )\<close> and the closing brace. The file is exactly its records, each line ended
  by a newline and each record followed by one empty line. The run replaces the file:
  whatever \<^verbatim>\<open>output.txt\<close> held before, or if it did not exist, it holds this text after,
  and no other file changes.
\<close>

theorem record_layout_and_truncation:
  assumes \<open>script w = Inr w'\<close>
  shows \<open>\<exists>out. files w' = (files w)(''output.txt'' \<mapsto> out)
     \<and> (\<forall>prior w''. script (w\<lparr>files := (files w)(''output.txt'' := prior)\<rparr>) = Inr w''
            \<longrightarrow> files w'' ''output.txt'' = Some out)
     \<and> (\<forall>r\<in>set (records_of out). \<exists>doc decl body.
            r = [doc, ''#[allow(dead_code)]'', decl, body, ''}'']
          \<and> take 4 doc = ''/// '' \<and> take 7 decl = ''pub fn '' \<and> last decl = CHR ''{''
          \<and> take 9 body = ''    self.'' \<and> last body = CHR '')'')
     \<and> out = concat (map (\<lambda>r. concat (map (\<lambda>l. l @ ''\<newline>'') r) @ ''\<newline>'') (records_of out))\<close>
proof -
  have fs: "files w' = (files w)(''output.txt'' \<mapsto> output_text)"
    using assms by (rule script_files)
  have prior: "\<forall>prior w''. script (w\<lparr>files := (files w)(''output.txt'' := prior)\<rparr>) = Inr w''
            \<longrightarrow> files w'' ''output.txt'' = Some output_text"
    by (simp add: script_output)
  have layout: \<open>\<forall>r\<in>set (records_of output_text). \<exists>doc decl body.
            r = [doc, ''#[allow(dead_code)]'', decl, body, ''}'']
          \<and> take 4 doc = ''/// '' \<and> take 7 decl = ''pub fn '' \<and> last decl = CHR ''{''
          \<and> take 9 body = ''    self.'' \<and> last body = CHR '')''\<close>
  proof
    fix r assume "r \<in> set (records_of output_text)"
    then obtain c wd where "r = lines_of (version_text c wd)" by (rule record_cases)
    then show \<open>\<exists>doc decl body.
            r = [doc, ''#[allow(dead_code)]'', decl, body, ''}'']
          \<and> take 4 doc = ''/// '' \<and> take 7 decl = ''pub fn '' \<and> last decl = CHR ''{''
          \<and> take 9 body = ''    self.'' \<and> last body = CHR '')''\<close>
      using version_text_layout [of c wd] by simp
  qed
  show ?thesis
    by (intro exI [of _ output_text] conjI fs prior layout output_text_rejoined)
qed

theorem record_layout_and_truncation_witness:
  "\<exists>w' out. script stale_world = Inr w'
     \<and> files w' = (files stale_world)(''output.txt'' \<mapsto> out)
     \<and> out = concat (map (\<lambda>r. concat (map (\<lambda>l. l @ ''\<newline>'') r) @ ''\<newline>'') (records_of out))"
proof -
  obtain w' where run: "script stale_world = Inr w'"
    using script_stale_world by blast
  from record_layout_and_truncation [OF run] obtain out where
    "files w' = (files stale_world)(''output.txt'' \<mapsto> out)"
    "out = concat (map (\<lambda>r. concat (map (\<lambda>l. l @ ''\<newline>'') r) @ ''\<newline>'') (records_of out))"
    by blast
  with run show ?thesis by blast
qed

text \<open>
  Claim C9. A run makes 130 I/O operations on the destination: the \<^verbatim>\<open>open\<close>, 128
  writes, and the \<^verbatim>\<open>close\<close> that flushes them. If one of them fails, the run ends with
  the uncaught \<^verbatim>\<open>OSError\<close>: exit status 1 and a traceback. If none fails, the run
  returns and the exit status is 0. Nothing else can make it fail.
\<close>

theorem fails_exactly_on_io_failure:
  "((\<exists>k<130. \<not> io_ok w (io_count w + k)) \<longrightarrow>
        script w = Inl OSError
      \<and> interpreter_exit (script w) = \<lparr>status = 1, traceback = Some OSError\<rparr>)
   \<and> ((\<forall>k<130. io_ok w (io_count w + k)) \<longrightarrow>
        (\<exists>w'. script w = Inr w')
      \<and> interpreter_exit (script w) = \<lparr>status = 0, traceback = None\<rparr>)"
  by (auto simp: script_result interpreter_exit_def)

theorem fails_exactly_on_io_failure_witness:
  "script locked_world = Inl OSError
   \<and> interpreter_exit (script locked_world) = \<lparr>status = 1, traceback = Some OSError\<rparr>
   \<and> (\<exists>w'. script clean_world = Inr w')
   \<and> interpreter_exit (script clean_world) = \<lparr>status = 0, traceback = None\<rparr>"
proof -
  have "\<not> io_ok locked_world (io_count locked_world + 0)"
    by (simp add: locked_world_def)
  then have bad: "\<exists>k<130. \<not> io_ok locked_world (io_count locked_world + k)"
    by (intro exI [of _ 0]) simp
  have good: "\<forall>k<130. io_ok clean_world (io_count clean_world + k)"
    by (simp add: clean_world_def)
  from fails_exactly_on_io_failure [of locked_world] bad
    fails_exactly_on_io_failure [of clean_world] good
  show ?thesis by blast
qed

text \<open>
  Claim C10. The 128 records of the written file declare 128 function names, no two of
  them equal.
\<close>

theorem names_pairwise_distinct:
  assumes "script w = Inr w'"
  shows "\<exists>out names. files w' ''output.txt'' = Some out
     \<and> map (\<lambda>r. map_option fn_name (parse_stub r)) (records_of out) = map Some names
     \<and> length names = 128 \<and> distinct names"
proof -
  let ?names = "concat (map (\<lambda>c. map (\<lambda>wd. fn_name (expected_stub c wd)) bit_widths) write_order)"
  have out: "files w' ''output.txt'' = Some output_text"
    using assms by (rule script_output)
  have "map (\<lambda>r. map_option fn_name (parse_stub r)) (records_of output_text)
      = map (map_option fn_name) (map parse_stub (records_of output_text))"
    by simp
  also have "\<dots> = map Some ?names"
    by (simp only: parsed_output) (simp add: write_order_def o_def)
  finally have names: "map (\<lambda>r. map_option fn_name (parse_stub r)) (records_of output_text)
      = map Some ?names" .
  have len: "length ?names = 128"
    by (simp add: write_order_def length_bit_widths)
  show ?thesis
    by (intro exI [of _ output_text] exI [of _ ?names] conjI out names len names_distinct)
qed

theorem names_pairwise_distinct_witness:
  "\<exists>w' out names. script clean_world = Inr w' \<and> files w' ''output.txt'' = Some out
     \<and> map (\<lambda>r. map_option fn_name (parse_stub r)) (records_of out) = map Some names
     \<and> length names = 128 \<and> distinct names"
proof -
  obtain w' where run: "script clean_world = Inr w'"
    using script_clean_world by blast
  from names_pairwise_distinct [OF run] run show ?thesis by blast
qed

end
